theory Spec2Isabelle
  imports Complex_Main "HOL-Library.Multiset"
begin

section \<open>Panics and slice indexing\<close>

text \<open>
  Go aborts with a run-time panic when a slice is read or written out of range, and
  \<open>log.Fatal\<close> ends the process. Both are results of the model.
\<close>

datatype error = IndexOutOfRange | Fatal

definition index :: "'a list \<Rightarrow> int \<Rightarrow> error + 'a" where
  "index xs i = (if 0 \<le> i \<and> i < int (length xs) then Inr (xs ! nat i) else Inl IndexOutOfRange)"

fun foldM_err :: "('a \<Rightarrow> 's \<Rightarrow> error + 's) \<Rightarrow> 'a list \<Rightarrow> 's \<Rightarrow> error + 's" where
  "foldM_err f [] s = Inr s"
| "foldM_err f (x # xs) s = (case f x s of Inl e \<Rightarrow> Inl e | Inr s' \<Rightarrow> foldM_err f xs s')"

section \<open>The base package: identifier sets, sparse vectors, tables\<close>

text \<open>
  The package \<open>base\<close> and the type \<open>Table\<close> are used by \<open>core/data.go\<close> but their
  source is not part of the files at hand. The test of \<open>GetUserRatingsSet\<close> shows the
  fields of \<open>SparseIdSet\<close>: \<open>DenseIds map[int]int\<close> (sparse id to dense id) and
  \<open>SparseIds []int\<close> (dense id to sparse id).
\<close>

record SparseIdSet =
  DenseIds :: "int \<rightharpoonup> int"
  SparseIds :: "int list"

definition NewSparseIdSet :: SparseIdSet where
  "NewSparseIdSet = \<lparr>DenseIds = Map.empty, SparseIds = []\<rparr>"

text \<open>Modelled from the spec: \<open>count()\<close>, the number of distinct sparse ids registered
  (the source of \<open>SparseIdSet.Len\<close> is missing).\<close>

definition SparseIdSet_Len :: "SparseIdSet \<Rightarrow> int" where
  "SparseIdSet_Len s = int (length (SparseIds s))"

text \<open>Modelled from the spec: \<open>add(sparseId)\<close> registers the id if unseen, assigning it
  the next sequential dense id (the count before the call), and is a no-op otherwise
  (the source of \<open>SparseIdSet.Add\<close> is missing).\<close>

definition SparseIdSet_Add :: "SparseIdSet \<Rightarrow> int \<Rightarrow> SparseIdSet" where
  "SparseIdSet_Add s sparseId =
     (case DenseIds s sparseId of
        Some _ \<Rightarrow> s
      | None \<Rightarrow> \<lparr>DenseIds = (DenseIds s)(sparseId \<mapsto> SparseIdSet_Len s),
                 SparseIds = SparseIds s @ [sparseId]\<rparr>)"

text \<open>Modelled from the spec: \<open>toDense(sparseId)\<close> returns the dense id of a known sparse
  id; for an unregistered id the reference behaviour silently returns a zero/default
  value rather than signalling absence (the source of \<open>SparseIdSet.ToDenseId\<close> is
  missing).\<close>

definition ToDenseId :: "SparseIdSet \<Rightarrow> int \<Rightarrow> int" where
  "ToDenseId s sparseId = (case DenseIds s sparseId of Some d \<Rightarrow> d | None \<Rightarrow> 0)"

text \<open>Modelled from the spec: \<open>toSparse(denseId)\<close> is the inverse lookup, and \<open>denseId\<close>
  must be in \<open>[0, count)\<close>; \<open>SparseIds\<close> is a slice, so a read outside that range is
  a panic (the source of \<open>SparseIdSet.ToSparseId\<close> is missing).\<close>

definition ToSparseId :: "SparseIdSet \<Rightarrow> int \<Rightarrow> error + int" where
  "ToSparseId s denseId = index (SparseIds s) denseId"

text \<open>Modelled from the spec: a SparseVector is an ordered, append-only list of
  (index, value) pairs; duplicate indices are not merged (the source of
  \<open>base.SparseVector\<close> is missing). Rating values are taken as exact numbers of a
  type \<open>'r\<close>; the rounding of \<open>float64\<close> is not modelled.\<close>

type_synonym 'r SparseVector = "(int \<times> 'r) list"

definition SparseVector_Add :: "'r SparseVector \<Rightarrow> int \<Rightarrow> 'r \<Rightarrow> 'r SparseVector" where
  "SparseVector_Add vec i v = vec @ [(i, v)]"

text \<open>Modelled from the spec: iteration over the pairs of a SparseVector in order; the
  callback receives the position, the index and the value, as the closure in
  \<open>GetUserRatingsSet\<close> expects.\<close>

definition SparseVector_ForEach ::
  "(int \<Rightarrow> int \<Rightarrow> 'r \<Rightarrow> 's \<Rightarrow> error + 's) \<Rightarrow> 'r SparseVector \<Rightarrow> 's \<Rightarrow> error + 's" where
  "SparseVector_ForEach f vec s =
     foldM_err (\<lambda>(i, (ix, v)). f (int i) ix v) (zip [0..<length vec] vec) s"

text \<open>Modelled from the spec: the arrays of SparseVectors are allocated with exactly
  as many empty entries as asked (the source of \<open>base.NewDenseSparseMatrix\<close> is
  missing).\<close>

definition NewDenseSparseMatrix :: "int \<Rightarrow> 'r SparseVector list" where
  "NewDenseSparseMatrix n = replicate (nat n) []"

text \<open>Modelled from the spec: the RawTable is an ordered sequence of
  (userId, itemId, rating) triples (the source of \<open>Table\<close> is missing).\<close>

type_synonym 'r Table = "(int \<times> int \<times> 'r) list"

definition Table_Len :: "'r Table \<Rightarrow> int" where
  "Table_Len table = int (length table)"

text \<open>Modelled from the spec: \<open>get(i)\<close> returns the raw triple at position \<open>i\<close>
  unchanged; a position outside the table is a panic.\<close>

definition Table_Get :: "'r Table \<Rightarrow> int \<Rightarrow> error + (int \<times> int \<times> 'r)" where
  "Table_Get table i = index table i"

text \<open>Modelled from the spec: a scan of every record in order.\<close>

definition Table_ForEach ::
  "(int \<Rightarrow> int \<Rightarrow> 'r \<Rightarrow> 's \<Rightarrow> error + 's) \<Rightarrow> 'r Table \<Rightarrow> 's \<Rightarrow> error + 's" where
  "Table_ForEach f table s = foldM_err (\<lambda>(userId, itemId, rating). f userId itemId rating) table s"

text \<open>The \<open>float64\<close> that a division returns: a number, or NaN from \<open>0 / 0\<close>.\<close>

datatype 'r float64 = Num 'r | NaN

text \<open>Modelled from the spec: the mean is the arithmetic average of all rating values,
  undefined/NaN for zero records (the source of \<open>Table.Mean\<close> is missing).\<close>

definition Table_Mean :: "'r::field Table \<Rightarrow> 'r float64" where
  "Table_Mean table =
     (if table = [] then NaN
      else Num (sum_list (map (\<lambda>(userId, itemId, rating). rating) table) / of_nat (length table)))"

section \<open>core/data.go: DataSet\<close>

record 'r DataSet =
  Table :: "'r Table"
  GlobalMean :: "'r float64"
  DenseUserIds :: "int list"
  DenseItemIds :: "int list"
  DenseUserRatings :: "'r SparseVector list"
  DenseItemRatings :: "'r SparseVector list"
  UserIdSet :: SparseIdSet
  ItemIdSet :: SparseIdSet

definition UserCount :: "'r DataSet \<Rightarrow> int" where
  "UserCount dataSet = SparseIdSet_Len (UserIdSet dataSet)"

definition ItemCount :: "'r DataSet \<Rightarrow> int" where
  "ItemCount dataSet = SparseIdSet_Len (ItemIdSet dataSet)"

text \<open>The closure of the first scan of \<open>NewDataSet\<close> (lines 39 to 44).\<close>

definition NewDataSet_ids :: "int \<Rightarrow> int \<Rightarrow> 'r \<Rightarrow> 'r DataSet \<Rightarrow> error + 'r DataSet" where
  "NewDataSet_ids userId itemId rating dataSet =
     (let dataSet = dataSet\<lparr>UserIdSet := SparseIdSet_Add (UserIdSet dataSet) userId\<rparr>;
          dataSet = dataSet\<lparr>ItemIdSet := SparseIdSet_Add (ItemIdSet dataSet) itemId\<rparr>;
          dataSet = dataSet\<lparr>DenseUserIds :=
                      DenseUserIds dataSet @ [ToDenseId (UserIdSet dataSet) userId]\<rparr>;
          dataSet = dataSet\<lparr>DenseItemIds :=
                      DenseItemIds dataSet @ [ToDenseId (ItemIdSet dataSet) itemId]\<rparr>
      in Inr dataSet)"

text \<open>The closure of the second scan of \<open>NewDataSet\<close> (lines 48 to 53). The two arrays
  hold pointers to vectors that nothing else refers to, so \<open>Add\<close> on an entry is an
  update of the array at that position.\<close>

definition NewDataSet_ratings :: "int \<Rightarrow> int \<Rightarrow> 'r \<Rightarrow> 'r DataSet \<Rightarrow> error + 'r DataSet" where
  "NewDataSet_ratings userId itemId rating dataSet =
     (let userDenseId = ToDenseId (UserIdSet dataSet) userId;
          itemDenseId = ToDenseId (ItemIdSet dataSet) itemId
      in case index (DenseUserRatings dataSet) userDenseId of
           Inl e \<Rightarrow> Inl e
         | Inr uvec \<Rightarrow>
            (let dataSet = dataSet\<lparr>DenseUserRatings :=
                   (DenseUserRatings dataSet)[nat userDenseId :=
                      SparseVector_Add uvec itemDenseId rating]\<rparr>
             in case index (DenseItemRatings dataSet) itemDenseId of
                  Inl e \<Rightarrow> Inl e
                | Inr ivec \<Rightarrow>
                    Inr (dataSet\<lparr>DenseItemRatings :=
                           (DenseItemRatings dataSet)[nat itemDenseId :=
                              SparseVector_Add ivec userDenseId rating]\<rparr>)))"

definition NewDataSet :: "'r::field Table \<Rightarrow> error + 'r DataSet" where
  "NewDataSet table =
     (let dataSet = \<lparr>Table = table, GlobalMean = Table_Mean table,
                      DenseUserIds = [], DenseItemIds = [],
                      DenseUserRatings = [], DenseItemRatings = [],
                      UserIdSet = NewSparseIdSet, ItemIdSet = NewSparseIdSet\<rparr>
      in case Table_ForEach NewDataSet_ids table dataSet of
           Inl e \<Rightarrow> Inl e
         | Inr dataSet \<Rightarrow>
            (let dataSet = dataSet\<lparr>DenseUserRatings := NewDenseSparseMatrix (UserCount dataSet)\<rparr>;
                 dataSet = dataSet\<lparr>DenseItemRatings := NewDenseSparseMatrix (ItemCount dataSet)\<rparr>
             in Table_ForEach NewDataSet_ratings table dataSet))"

definition GetDense :: "'r DataSet \<Rightarrow> int \<Rightarrow> error + (int \<times> int \<times> 'r)" where
  "GetDense dataSet i =
     (case Table_Get (Table dataSet) i of
        Inl e \<Rightarrow> Inl e
      | Inr (_, _, rating) \<Rightarrow>
         (case index (DenseUserIds dataSet) i of
            Inl e \<Rightarrow> Inl e
          | Inr denseUserId \<Rightarrow>
             (case index (DenseItemIds dataSet) i of
                Inl e \<Rightarrow> Inl e
              | Inr denseItemId \<Rightarrow> Inr (denseUserId, denseItemId, rating))))"

definition GetUserRatingsSet :: "'r DataSet \<Rightarrow> int \<Rightarrow> error + (int \<rightharpoonup> 'r)" where
  "GetUserRatingsSet dataSet userId =
     (let denseUserId = ToDenseId (UserIdSet dataSet) userId
      in case index (DenseUserRatings dataSet) denseUserId of
           Inl e \<Rightarrow> Inl e
         | Inr vec \<Rightarrow>
             SparseVector_ForEach
               (\<lambda>i ix value m.
                  case ToSparseId (ItemIdSet dataSet) ix of
                    Inl e \<Rightarrow> Inl e
                  | Inr itemId \<Rightarrow> Inr (m(itemId \<mapsto> value)))
               vec Map.empty)"

section \<open>The Go standard library, as far as the loader uses it\<close>

text \<open>
  \<open>strings.Split(s, sep)\<close> cuts \<open>s\<close> at every occurrence of \<open>sep\<close>, from the left
  and without overlap, and returns the pieces, the empty ones included: there is one piece
  more than there are separators, so the empty line gives one empty field. With the empty
  separator it cuts after every character (bytes here; Go cuts after every UTF-8
  sequence).
\<close>

fun Split_from :: "string \<Rightarrow> string \<Rightarrow> string \<Rightarrow> string list" where
  "Split_from sep cur [] = [cur]"
| "Split_from sep cur (c # cs) =
     (if sep \<noteq> [] \<and> take (length sep) (c # cs) = sep
      then cur # Split_from sep [] (drop (length sep) (c # cs))
      else Split_from sep (cur @ [c]) cs)"

definition Split :: "string \<Rightarrow> string \<Rightarrow> string list" where
  "Split s sep = (if sep = [] then map (\<lambda>c. [c]) s else Split_from sep [] s)"

text \<open>
  \<open>strconv.Atoi(s)\<close>, for the 64-bit \<open>int\<close>, after the documentation of \<open>ParseInt\<close>:
  an optional sign and decimal digits. If \<open>s\<close> is empty or contains invalid digits the
  error is \<open>ErrSyntax\<close> and the returned value is 0; if the value cannot be represented
  the error is \<open>ErrRange\<close> and the returned value is the integer of maximum magnitude
  and of the same sign. The scan stops with \<open>ErrRange\<close> as soon as the digits read
  exceed 64 bits.
\<close>

datatype NumError = ErrSyntax | ErrRange

definition digit :: "char \<Rightarrow> int option" where
  "digit c = (if 48 \<le> (of_char c :: int) \<and> (of_char c :: int) \<le> 57
              then Some (of_char c - 48) else None)"

definition maxUint64 :: int where "maxUint64 = 18446744073709551615"

fun ParseUint_digits :: "int \<Rightarrow> string \<Rightarrow> int \<times> NumError option" where
  "ParseUint_digits n [] = (n, None)"
| "ParseUint_digits n (c # cs) =
     (case digit c of
        None \<Rightarrow> (0, Some ErrSyntax)
      | Some d \<Rightarrow>
          if n \<ge> maxUint64 div 10 + 1 then (maxUint64, Some ErrRange)
          else if n * 10 + d > maxUint64 then (maxUint64, Some ErrRange)
          else ParseUint_digits (n * 10 + d) cs)"

definition ParseUint :: "string \<Rightarrow> int \<times> NumError option" where
  "ParseUint s = (if s = [] then (0, Some ErrSyntax) else ParseUint_digits 0 s)"

definition Atoi :: "string \<Rightarrow> int \<times> NumError option" where
  "Atoi s =
     (if s = [] then (0, Some ErrSyntax)
      else
        let neg = (hd s = CHR ''-'');
            s1 = (if hd s = CHR ''+'' \<or> hd s = CHR ''-'' then tl s else s);
            (un, err) = ParseUint s1
        in if err = Some ErrSyntax then (0, err)
           else if \<not> neg \<and> un \<ge> 2 ^ 63 then (2 ^ 63 - 1, Some ErrRange)
           else if neg \<and> un > 2 ^ 63 then (- (2 ^ 63), Some ErrRange)
           else (if neg then - un else un, None))"

text \<open>
  \<open>strconv.ParseFloat(s, 32)\<close>, after its documentation: if \<open>s\<close> is not syntactically
  well-formed the error is \<open>ErrSyntax\<close> and the returned value is 0; if it is
  well-formed the nearest floating-point number is returned, with \<open>ErrRange\<close> (and an
  infinity as value) when \<open>s\<close> is too far out of range. The conversion of the numerals
  is the parameter \<open>float_of\<close>: it says whether a string is well-formed, and then gives
  the value and whether the string is out of range. The rounding is not modelled.
\<close>

definition ParseFloat :: "(string \<Rightarrow> ('r \<times> bool) option) \<Rightarrow> string \<Rightarrow> ('r::zero) \<times> NumError option" where
  "ParseFloat float_of s =
     (case float_of s of
        None \<Rightarrow> (0, Some ErrSyntax)
      | Some (v, out_of_range) \<Rightarrow> (v, if out_of_range then Some ErrRange else None))"

section \<open>core/data.go: LoadDataFromCSV\<close>

text \<open>Modelled from the spec: the raw table that the loaders produce holds the triples
  \<open>(users[i], items[i], ratings[i])\<close> in order (the source of \<open>NewDataTable\<close> is
  missing).\<close>

definition NewDataTable :: "int list \<Rightarrow> int list \<Rightarrow> 'r list \<Rightarrow> 'r Table" where
  "NewDataTable users items ratings = zip users (zip items ratings)"

text \<open>
  The body of the scanner loop (lines 134 to 150), on the state \<open>hasHeader\<close>,
  \<open>users\<close>, \<open>items\<close>, \<open>ratings\<close>. The errors of the three parsers are discarded
  (\<open>user, _ := strconv.Atoi(fields[0])\<close>). \<open>strconv.ParseFloat(_, 32)\<close> is a parameter:
  it returns a value and an error, like \<open>Atoi\<close>, and its rounding is not modelled.
\<close>

definition LoadDataFromCSV_line ::
  "(string \<Rightarrow> 'r \<times> NumError option) \<Rightarrow> string \<Rightarrow> string \<Rightarrow>
   bool \<times> int list \<times> int list \<times> 'r list \<Rightarrow> error + (bool \<times> int list \<times> int list \<times> 'r list)" where
  "LoadDataFromCSV_line ParseFloat32 sep line st =
     (case st of (hasHeader, users, items, ratings) \<Rightarrow>
        if hasHeader then Inr (False, users, items, ratings)
        else
          let fields = Split line sep
          in if length fields < 2 then Inr (hasHeader, users, items, ratings)
             else
               case index fields 0 of Inl e \<Rightarrow> Inl e | Inr f0 \<Rightarrow>
               (let (user, _) = Atoi f0 in
                case index fields 1 of Inl e \<Rightarrow> Inl e | Inr f1 \<Rightarrow>
                (let (item, _) = Atoi f1 in
                 case index fields 2 of Inl e \<Rightarrow> Inl e | Inr f2 \<Rightarrow>
                 (let (rating, _) = ParseFloat32 f2
                  in Inr (hasHeader, users @ [user], items @ [item], ratings @ [rating])))))"

text \<open>
  The file is the list of lines that the scanner yields, or nothing when \<open>os.Open\<close>
  fails, which ends the process through \<open>log.Fatal\<close>.
\<close>

definition LoadDataFromCSV ::
  "(string \<Rightarrow> 'r \<times> NumError option) \<Rightarrow> string list option \<Rightarrow> string \<Rightarrow> bool \<Rightarrow>
   error + ('r::field) DataSet" where
  "LoadDataFromCSV ParseFloat32 file sep hasHeader =
     (case file of
        None \<Rightarrow> Inl Fatal
      | Some lines \<Rightarrow>
         (case foldM_err (LoadDataFromCSV_line ParseFloat32 sep) lines (hasHeader, [], [], []) of
            Inl e \<Rightarrow> Inl e
          | Inr (_, users, items, ratings) \<Rightarrow> NewDataSet (NewDataTable users items ratings)))"

section \<open>Notions of the specification and of the proofs\<close>

text \<open>An identifier set is well formed when every registered sparse id has a dense id
  in range, and the slice holds the sparse id back at that position.\<close>

definition wf_ids :: "SparseIdSet \<Rightarrow> bool" where
  "wf_ids s \<longleftrightarrow>
     (\<forall>k d. DenseIds s k = Some d \<longrightarrow> 0 \<le> d \<and> d < int (length (SparseIds s)) \<and> SparseIds s ! nat d = k)"

text \<open>The state of the first scan after the records \<open>ys\<close>.\<close>

definition ids_inv :: "'r Table \<Rightarrow> 'r DataSet \<Rightarrow> bool" where
  "ids_inv ys dataSet \<longleftrightarrow>
     wf_ids (UserIdSet dataSet) \<and> wf_ids (ItemIdSet dataSet) \<and>
     length (DenseUserIds dataSet) = length ys \<and>
     length (DenseItemIds dataSet) = length ys \<and>
     (\<forall>j<length ys. DenseIds (UserIdSet dataSet) (fst (ys ! j)) = Some (DenseUserIds dataSet ! j)) \<and>
     (\<forall>j<length ys. DenseIds (ItemIdSet dataSet) (fst (snd (ys ! j))) = Some (DenseItemIds dataSet ! j))"

text \<open>What the vector of the user (of the item) with dense id \<open>d\<close> holds after the
  records \<open>ys\<close>: the pairs of the records of that user (item), in the table's order.\<close>

definition user_rows :: "SparseIdSet \<Rightarrow> SparseIdSet \<Rightarrow> 'r Table \<Rightarrow> nat \<Rightarrow> 'r SparseVector" where
  "user_rows U I ys d =
     map (\<lambda>(userId, itemId, rating). (ToDenseId I itemId, rating))
       (filter (\<lambda>(userId, itemId, rating). ToDenseId U userId = int d) ys)"

definition item_rows :: "SparseIdSet \<Rightarrow> SparseIdSet \<Rightarrow> 'r Table \<Rightarrow> nat \<Rightarrow> 'r SparseVector" where
  "item_rows U I ys d =
     map (\<lambda>(userId, itemId, rating). (ToDenseId U userId, rating))
       (filter (\<lambda>(userId, itemId, rating). ToDenseId I itemId = int d) ys)"

text \<open>All rating values across an array of SparseVectors, as a multiset and summed.\<close>

definition ratings_mset :: "'r SparseVector list \<Rightarrow> 'r multiset" where
  "ratings_mset vecs = (\<Sum>vec\<leftarrow>vecs. mset (map snd vec))"

definition ratings_sum :: "'r::comm_monoid_add SparseVector list \<Rightarrow> 'r" where
  "ratings_sum vecs = (\<Sum>vec\<leftarrow>vecs. \<Sum>(ix, v)\<leftarrow>vec. v)"

text \<open>The state of the second scan after the records \<open>ys\<close>, from the state \<open>d0\<close>
  in which it starts.\<close>

definition ratings_inv :: "'r DataSet \<Rightarrow> 'r Table \<Rightarrow> 'r DataSet \<Rightarrow> bool" where
  "ratings_inv d0 ys dataSet \<longleftrightarrow>
     Table dataSet = Table d0 \<and> GlobalMean dataSet = GlobalMean d0 \<and>
     DenseUserIds dataSet = DenseUserIds d0 \<and> DenseItemIds dataSet = DenseItemIds d0 \<and>
     UserIdSet dataSet = UserIdSet d0 \<and> ItemIdSet dataSet = ItemIdSet d0 \<and>
     length (DenseUserRatings dataSet) = length (SparseIds (UserIdSet d0)) \<and>
     length (DenseItemRatings dataSet) = length (SparseIds (ItemIdSet d0)) \<and>
     (\<forall>d<length (SparseIds (UserIdSet d0)).
         DenseUserRatings dataSet ! d = user_rows (UserIdSet d0) (ItemIdSet d0) ys d) \<and>
     (\<forall>d<length (SparseIds (ItemIdSet d0)).
         DenseItemRatings dataSet ! d = item_rows (UserIdSet d0) (ItemIdSet d0) ys d) \<and>
     ratings_mset (DenseUserRatings dataSet) = mset (map (\<lambda>(userId, itemId, rating). rating) ys) \<and>
     ratings_mset (DenseItemRatings dataSet) = mset (map (\<lambda>(userId, itemId, rating). rating) ys)"

text \<open>The data set of \<open>TestDataSet_GetUserRatingsSet\<close>; the fields the test leaves out
  have Go's zero values.\<close>

definition test_data :: "rat DataSet" where
  "test_data =
     \<lparr>Table = [], GlobalMean = Num 0, DenseUserIds = [], DenseItemIds = [],
      DenseUserRatings = [[(1, 10), (2, 20)]], DenseItemRatings = [],
      UserIdSet = \<lparr>DenseIds = [2 \<mapsto> 0], SparseIds = [2]\<rparr>,
      ItemIdSet = \<lparr>DenseIds = [0 \<mapsto> 0, 2 \<mapsto> 1, 4 \<mapsto> 2, 6 \<mapsto> 3], SparseIds = [0, 2, 4, 6]\<rparr>\<rparr>"

text \<open>The same data set with a second observation of dense item 1 for its user.\<close>

definition dup_data :: "rat DataSet" where
  "dup_data = test_data\<lparr>DenseUserRatings := [[(1, 10), (2, 20), (1, 30)]]\<rparr>"

text \<open>A raw table in which a user and an item occur several times, and one pair twice.\<close>

definition sample_table :: "rat Table" where
  "sample_table = [(5, 7, 3), (9, 7, 4), (5, 8, 1), (5, 7, 2)]"

text \<open>What \<open>strconv.ParseFloat\<close> returns for a field that is not a number, such as
  \<open>x\<close>: zero and a syntax error. It stands for the parser in the examples, whose rating
  fields are no numbers.\<close>

definition ParseFloat_reject :: "string \<Rightarrow> rat \<times> NumError option" where
  "ParseFloat_reject s = (0, Some ErrSyntax)"







lemmas model_defs =
  NewDataSet_def Table_ForEach_def NewDataSet_ids_def NewDataSet_ratings_def
  SparseIdSet_Add_def SparseIdSet_Len_def ToDenseId_def ToSparseId_def index_def
  NewSparseIdSet_def NewDenseSparseMatrix_def UserCount_def ItemCount_def
  SparseVector_Add_def SparseVector_ForEach_def Table_Mean_def Table_Get_def Table_Len_def
  GetDense_def GetUserRatingsSet_def Let_def

lemmas csv_defs = LoadDataFromCSV_def LoadDataFromCSV_line_def Split_def Atoi_def ParseUint_def
  digit_def maxUint64_def index_def NewDataTable_def

section \<open>Lemmas on folds, sums and maps\<close>

lemma foldM_err_invariant_gen:
  assumes "P ys s"
    and "\<And>x ys s. x \<in> set xs \<Longrightarrow> P ys s \<Longrightarrow> \<exists>s'. f x s = Inr s' \<and> P (ys @ [x]) s'"
  shows "\<exists>s'. foldM_err f xs s = Inr s' \<and> P (ys @ xs) s'"
  using assms
proof (induction xs arbitrary: ys s)
  case Nil
  then show ?case by simp
next
  case (Cons x xs)
  from Cons.prems(2)[of x ys s] Cons.prems(1)
  obtain s1 where s1: "f x s = Inr s1" "P (ys @ [x]) s1" by auto
  have "\<exists>s'. foldM_err f xs s1 = Inr s' \<and> P ((ys @ [x]) @ xs) s'"
    by (rule Cons.IH[OF s1(2)]) (use Cons.prems(2) in auto)
  with s1(1) show ?case by simp
qed

lemma foldM_err_invariant:
  assumes "P [] s"
    and "\<And>x ys s. x \<in> set xs \<Longrightarrow> P ys s \<Longrightarrow> \<exists>s'. f x s = Inr s' \<and> P (ys @ [x]) s'"
  shows "\<exists>s'. foldM_err f xs s = Inr s' \<and> P xs s'"
  using foldM_err_invariant_gen[of P "[]" s xs f] assms by simp

lemma foldM_err_zip_ignore:
  assumes "length ns = length xs"
  shows "foldM_err (\<lambda>(i, x). g x) (zip ns xs) s = foldM_err g xs s"
  using assms
proof (induction xs arbitrary: ns s)
  case Nil
  then show ?case by simp
next
  case (Cons x xs)
  then obtain n ns' where ns: "ns = n # ns'" "length ns' = length xs"
    by (cases ns) auto
  with Cons.IH[of ns'] show ?case by (simp split: sum.splits)
qed

lemma foldM_err_total:
  assumes "\<And>x s. x \<in> set xs \<Longrightarrow> f x s = Inr (g x s)"
  shows "foldM_err f xs s = Inr (fold g xs s)"
  using assms by (induction xs arbitrary: s) simp_all

lemma sum_list_map_update:
  fixes f :: "'a \<Rightarrow> 'b::comm_monoid_add"
  assumes "i < length xs" and "f y = f (xs ! i) + c"
  shows "sum_list (map f (xs[i := y])) = sum_list (map f xs) + c"
  using assms
proof (induction xs arbitrary: i)
  case Nil
  then show ?case by simp
next
  case (Cons x xs)
  show ?case
  proof (cases i)
    case 0
    with Cons.prems show ?thesis by (simp add: ac_simps)
  next
    case (Suc j)
    with Cons.prems have "sum_list (map f (xs[j := y])) = sum_list (map f xs) + c"
      by (intro Cons.IH) simp_all
    with Suc show ?thesis by (simp add: ac_simps)
  qed
qed

lemma sum_mset_image_list:
  "sum_mset (image_mset f (mset xs)) = sum_list (map f xs)"
  by (induction xs) simp_all

lemma fold_upd_map_of:
  "fold (\<lambda>(k, v) m. m(k \<mapsto> v)) kvs m = m ++ map_of (rev kvs)"
proof (induction kvs arbitrary: m)
  case Nil
  show ?case by simp
next
  case (Cons kv kvs)
  obtain k v where kv: "kv = (k, v)" by (cases kv)
  have "fold (\<lambda>(k, v) m. m(k \<mapsto> v)) (kv # kvs) m =
        fold (\<lambda>(k, v) m. m(k \<mapsto> v)) kvs (m(k \<mapsto> v))"
    unfolding kv by simp
  also have "\<dots> = m(k \<mapsto> v) ++ map_of (rev kvs)"
    by (rule Cons.IH)
  also have "\<dots> = m ++ map_of (rev (kv # kvs))"
    unfolding kv by (simp add: map_of_append)
  finally show ?case .
qed

lemma map_of_rev_last:
  assumes q: "q < length kvs"
    and last: "\<And>q'. q < q' \<Longrightarrow> q' < length kvs \<Longrightarrow> fst (kvs ! q') \<noteq> fst (kvs ! q)"
  shows "map_of (rev kvs) (fst (kvs ! q)) = Some (snd (kvs ! q))"
proof -
  let ?k = "fst (kvs ! q)"
  have split: "kvs = take q kvs @ kvs ! q # drop (Suc q) kvs"
    using q by (rule id_take_nth_drop)
  have "?k \<notin> fst ` set (drop (Suc q) kvs)"
  proof
    assume "?k \<in> fst ` set (drop (Suc q) kvs)"
    then obtain j where j: "j < length (drop (Suc q) kvs)" "fst (drop (Suc q) kvs ! j) = ?k"
      by (auto simp: in_set_conv_nth)
    then have "Suc q + j < length kvs" "fst (kvs ! (Suc q + j)) = ?k" by simp_all
    with last[of "Suc q + j"] show False by simp
  qed
  then have none: "map_of (rev (drop (Suc q) kvs)) ?k = None"
    by (simp add: map_of_eq_None_iff)
  have "rev kvs = rev (drop (Suc q) kvs) @ (kvs ! q) # rev (take q kvs)"
    by (subst split) simp
  then have "map_of (rev kvs) ?k =
      (map_of ((kvs ! q) # rev (take q kvs)) ++ map_of (rev (drop (Suc q) kvs))) ?k"
    by (simp only: map_of_append)
  also have "\<dots> = map_of ((kvs ! q) # rev (take q kvs)) ?k"
    using none by (simp add: map_add_def)
  also have "\<dots> = Some (snd (kvs ! q))"
    by (cases "kvs ! q") simp
  finally show ?thesis .
qed

section \<open>Identifier sets\<close>

lemma wf_ids_New: "wf_ids NewSparseIdSet"
  by (simp add: wf_ids_def NewSparseIdSet_def)

lemma wf_ids_Add:
  assumes "wf_ids s"
  shows "wf_ids (SparseIdSet_Add s k)"
proof (cases "DenseIds s k")
  case (Some d)
  with assms show ?thesis by (simp add: SparseIdSet_Add_def)
next
  case None
  have old: "0 \<le> d \<and> d < int (length (SparseIds s)) \<and> SparseIds s ! nat d = k'"
    if "DenseIds s k' = Some d" for k' d
    using assms that unfolding wf_ids_def by blast
  show ?thesis
    unfolding wf_ids_def
  proof (intro allI impI)
    fix k' d
    assume h: "DenseIds (SparseIdSet_Add s k) k' = Some d"
    show "0 \<le> d \<and> d < int (length (SparseIds (SparseIdSet_Add s k))) \<and>
          SparseIds (SparseIdSet_Add s k) ! nat d = k'"
    proof (cases "k' = k")
      case True
      with h None show ?thesis
        by (auto simp: SparseIdSet_Add_def SparseIdSet_Len_def)
    next
      case False
      with h None have "DenseIds s k' = Some d"
        by (simp add: SparseIdSet_Add_def)
      from old[OF this] have "nat d < length (SparseIds s)" by linarith
      with old[OF \<open>DenseIds s k' = Some d\<close>] None show ?thesis
        by (simp add: SparseIdSet_Add_def nth_append)
    qed
  qed
qed

lemma Add_registered: "\<exists>d. DenseIds (SparseIdSet_Add s k) k = Some d"
  by (auto simp: SparseIdSet_Add_def split: option.splits)

lemma Add_stable: "DenseIds s k = Some d \<Longrightarrow> DenseIds (SparseIdSet_Add s k') k = Some d"
  by (auto simp: SparseIdSet_Add_def split: option.splits)

lemma wf_ids_range:
  "wf_ids s \<Longrightarrow> DenseIds s k = Some d \<Longrightarrow> 0 \<le> d \<and> d < SparseIdSet_Len s \<and> ToSparseId s d = Inr k"
  by (auto simp: wf_ids_def SparseIdSet_Len_def ToSparseId_def index_def)

section \<open>The two scans of NewDataSet\<close>

lemma NewDataSet_ids_frame:
  "\<exists>d'. NewDataSet_ids userId itemId rating dataSet = Inr d' \<and>
     Table d' = Table dataSet \<and> GlobalMean d' = GlobalMean dataSet \<and>
     DenseUserRatings d' = DenseUserRatings dataSet \<and>
     DenseItemRatings d' = DenseItemRatings dataSet \<and>
     UserIdSet d' = SparseIdSet_Add (UserIdSet dataSet) userId \<and>
     ItemIdSet d' = SparseIdSet_Add (ItemIdSet dataSet) itemId \<and>
     DenseUserIds d' = DenseUserIds dataSet @ [ToDenseId (UserIdSet d') userId] \<and>
     DenseItemIds d' = DenseItemIds dataSet @ [ToDenseId (ItemIdSet d') itemId]"
  by (simp add: NewDataSet_ids_def Let_def)

lemma ids_inv_step:
  assumes inv: "ids_inv ys dataSet"
    and step: "NewDataSet_ids userId itemId rating dataSet = Inr d'"
  shows "ids_inv (ys @ [(userId, itemId, rating)]) d'"
proof -
  from NewDataSet_ids_frame[of userId itemId rating dataSet] step
  have U: "UserIdSet d' = SparseIdSet_Add (UserIdSet dataSet) userId"
    and I: "ItemIdSet d' = SparseIdSet_Add (ItemIdSet dataSet) itemId"
    and DU: "DenseUserIds d' = DenseUserIds dataSet @ [ToDenseId (UserIdSet d') userId]"
    and DI: "DenseItemIds d' = DenseItemIds dataSet @ [ToDenseId (ItemIdSet d') itemId]"
    by auto
  from inv have wfU: "wf_ids (UserIdSet dataSet)" and wfI: "wf_ids (ItemIdSet dataSet)"
    and lU: "length (DenseUserIds dataSet) = length ys"
    and lI: "length (DenseItemIds dataSet) = length ys"
    and oldU: "\<And>j. j < length ys \<Longrightarrow>
          DenseIds (UserIdSet dataSet) (fst (ys ! j)) = Some (DenseUserIds dataSet ! j)"
    and oldI: "\<And>j. j < length ys \<Longrightarrow>
          DenseIds (ItemIdSet dataSet) (fst (snd (ys ! j))) = Some (DenseItemIds dataSet ! j)"
    by (simp_all add: ids_inv_def)
  have newU: "DenseIds (UserIdSet d') userId = Some (ToDenseId (UserIdSet d') userId)"
    using Add_registered[of "UserIdSet dataSet" userId] U by (auto simp: ToDenseId_def)
  have newI: "DenseIds (ItemIdSet d') itemId = Some (ToDenseId (ItemIdSet d') itemId)"
    using Add_registered[of "ItemIdSet dataSet" itemId] I by (auto simp: ToDenseId_def)
  have a: "DenseIds (UserIdSet d') (fst ((ys @ [(userId, itemId, rating)]) ! j)) =
             Some (DenseUserIds d' ! j)" if "j < length (ys @ [(userId, itemId, rating)])" for j
  proof (cases "j < length ys")
    case True
    with oldU[OF True] lU show ?thesis
      by (simp add: U DU nth_append Add_stable)
  next
    case False
    with that have "j = length ys" by simp
    with newU lU show ?thesis by (simp add: DU nth_append)
  qed
  have b: "DenseIds (ItemIdSet d') (fst (snd ((ys @ [(userId, itemId, rating)]) ! j))) =
             Some (DenseItemIds d' ! j)" if "j < length (ys @ [(userId, itemId, rating)])" for j
  proof (cases "j < length ys")
    case True
    with oldI[OF True] lI show ?thesis
      by (simp add: I DI nth_append Add_stable)
  next
    case False
    with that have "j = length ys" by simp
    with newI lI show ?thesis by (simp add: DI nth_append)
  qed
  have "wf_ids (UserIdSet d')" "wf_ids (ItemIdSet d')"
    using wfU wfI by (simp_all add: U I wf_ids_Add)
  moreover have "length (DenseUserIds d') = length (ys @ [(userId, itemId, rating)])"
    "length (DenseItemIds d') = length (ys @ [(userId, itemId, rating)])"
    using lU lI by (simp_all add: DU DI)
  ultimately show ?thesis
    unfolding ids_inv_def using a b by blast
qed

lemma ids_scan:
  fixes dataSet :: "'r DataSet"
  assumes "ids_inv [] dataSet"
  shows "\<exists>d'. Table_ForEach NewDataSet_ids table dataSet = Inr d' \<and> ids_inv table d' \<and>
           Table d' = Table dataSet \<and> GlobalMean d' = GlobalMean dataSet"
proof -
  let ?P = "\<lambda>ys (d::'r DataSet). ids_inv ys d \<and> Table d = Table dataSet \<and>
              GlobalMean d = GlobalMean dataSet"
  have "\<exists>d'. foldM_err (\<lambda>(userId, itemId, rating). NewDataSet_ids userId itemId rating)
               table dataSet = Inr d' \<and> ?P table d'"
  proof (rule foldM_err_invariant)
    show "?P [] dataSet" using assms by simp
  next
    fix x :: "int \<times> int \<times> 'r" and ys and s :: "'r DataSet"
    assume P: "?P ys s"
    obtain u i r where x: "x = (u, i, r)" by (cases x)
    from NewDataSet_ids_frame[of u i r s]
    obtain s' where s': "NewDataSet_ids u i r s = Inr s'" "Table s' = Table s"
      "GlobalMean s' = GlobalMean s" by blast
    from ids_inv_step[OF _ s'(1)] P have "ids_inv (ys @ [x]) s'" by (simp add: x)
    with s' P x
    show "\<exists>s'. (case x of (userId, itemId, rating) \<Rightarrow> NewDataSet_ids userId itemId rating) s
               = Inr s' \<and> ?P (ys @ [x]) s'"
      by simp
  qed
  then show ?thesis by (simp add: Table_ForEach_def)
qed

lemma NewDataSet_ratings_in_range:
  assumes "0 \<le> ToDenseId (UserIdSet dataSet) userId"
    and "ToDenseId (UserIdSet dataSet) userId < int (length (DenseUserRatings dataSet))"
    and "0 \<le> ToDenseId (ItemIdSet dataSet) itemId"
    and "ToDenseId (ItemIdSet dataSet) itemId < int (length (DenseItemRatings dataSet))"
  shows "NewDataSet_ratings userId itemId rating dataSet =
     Inr (dataSet\<lparr>DenseUserRatings :=
            (DenseUserRatings dataSet)[nat (ToDenseId (UserIdSet dataSet) userId) :=
               DenseUserRatings dataSet ! nat (ToDenseId (UserIdSet dataSet) userId) @
                 [(ToDenseId (ItemIdSet dataSet) itemId, rating)]],
          DenseItemRatings :=
            (DenseItemRatings dataSet)[nat (ToDenseId (ItemIdSet dataSet) itemId) :=
               DenseItemRatings dataSet ! nat (ToDenseId (ItemIdSet dataSet) itemId) @
                 [(ToDenseId (UserIdSet dataSet) userId, rating)]]\<rparr>)"
  using assms by (simp add: NewDataSet_ratings_def Let_def index_def SparseVector_Add_def)

lemma ratings_mset_update:
  assumes "i < length vecs"
  shows "ratings_mset (vecs[i := vecs ! i @ [(k, r)]]) = ratings_mset vecs + {#r#}"
  unfolding ratings_mset_def
  by (rule sum_list_map_update[OF assms]) simp

lemma ratings_mset_replicate: "ratings_mset (replicate n []) = {#}"
  by (induction n) (simp_all add: ratings_mset_def)

lemma user_rows_snoc:
  "user_rows U I (ys @ [(u, i, r)]) d =
     user_rows U I ys d @ (if ToDenseId U u = int d then [(ToDenseId I i, r)] else [])"
  by (simp add: user_rows_def)

lemma item_rows_snoc:
  "item_rows U I (ys @ [(u, i, r)]) d =
     item_rows U I ys d @ (if ToDenseId I i = int d then [(ToDenseId U u, r)] else [])"
  by (simp add: item_rows_def)

lemma ratings_inv_step:
  assumes inv: "ratings_inv d0 ys dataSet"
    and wfU: "wf_ids (UserIdSet d0)" and wfI: "wf_ids (ItemIdSet d0)"
    and regU: "DenseIds (UserIdSet d0) userId = Some du"
    and regI: "DenseIds (ItemIdSet d0) itemId = Some di"
  shows "\<exists>d'. NewDataSet_ratings userId itemId rating dataSet = Inr d' \<and>
           ratings_inv d0 (ys @ [(userId, itemId, rating)]) d'"
proof -
  let ?U = "UserIdSet d0" and ?I = "ItemIdSet d0"
  from inv have fr: "UserIdSet dataSet = ?U" "ItemIdSet dataSet = ?I"
    and lens: "length (DenseUserRatings dataSet) = length (SparseIds ?U)"
              "length (DenseItemRatings dataSet) = length (SparseIds ?I)"
    by (simp_all add: ratings_inv_def)
  have du: "ToDenseId ?U userId = du" "0 \<le> du" "du < int (length (SparseIds ?U))"
    using wf_ids_range[OF wfU regU] regU by (simp_all add: ToDenseId_def SparseIdSet_Len_def)
  have di: "ToDenseId ?I itemId = di" "0 \<le> di" "di < int (length (SparseIds ?I))"
    using wf_ids_range[OF wfI regI] regI by (simp_all add: ToDenseId_def SparseIdSet_Len_def)
  have nu: "nat du < length (DenseUserRatings dataSet)" using du lens by linarith
  have ni: "nat di < length (DenseItemRatings dataSet)" using di lens by linarith
  define d' where "d' = dataSet\<lparr>DenseUserRatings :=
            (DenseUserRatings dataSet)[nat du := DenseUserRatings dataSet ! nat du @ [(di, rating)]],
          DenseItemRatings :=
            (DenseItemRatings dataSet)[nat di := DenseItemRatings dataSet ! nat di @ [(du, rating)]]\<rparr>"
  have step: "NewDataSet_ratings userId itemId rating dataSet = Inr d'"
    using NewDataSet_ratings_in_range[of dataSet userId itemId rating] du di lens
    by (simp add: fr d'_def)
  have rowsU: "DenseUserRatings d' ! d = user_rows ?U ?I (ys @ [(userId, itemId, rating)]) d"
    if "d < length (SparseIds ?U)" for d
  proof -
    from inv that have old: "DenseUserRatings dataSet ! d = user_rows ?U ?I ys d"
      by (simp add: ratings_inv_def)
    have eq: "(du = int d) = (d = nat du)" using du(2) by auto
    from that lens old show ?thesis
      by (auto simp: d'_def user_rows_snoc du di nth_list_update eq)
  qed
  have rowsI: "DenseItemRatings d' ! d = item_rows ?U ?I (ys @ [(userId, itemId, rating)]) d"
    if "d < length (SparseIds ?I)" for d
  proof -
    from inv that have old: "DenseItemRatings dataSet ! d = item_rows ?U ?I ys d"
      by (simp add: ratings_inv_def)
    have eq: "(di = int d) = (d = nat di)" using di(2) by auto
    from that lens old show ?thesis
      by (auto simp: d'_def item_rows_snoc du di nth_list_update eq)
  qed
  have msU: "ratings_mset (DenseUserRatings d') =
      mset (map (\<lambda>(userId, itemId, rating). rating) (ys @ [(userId, itemId, rating)]))"
    using inv ratings_mset_update[OF nu] by (simp add: d'_def ratings_inv_def)
  have msI: "ratings_mset (DenseItemRatings d') =
      mset (map (\<lambda>(userId, itemId, rating). rating) (ys @ [(userId, itemId, rating)]))"
    using inv ratings_mset_update[OF ni] by (simp add: d'_def ratings_inv_def)
  have frame: "Table d' = Table d0" "GlobalMean d' = GlobalMean d0"
    "DenseUserIds d' = DenseUserIds d0" "DenseItemIds d' = DenseItemIds d0"
    "UserIdSet d' = ?U" "ItemIdSet d' = ?I"
    "length (DenseUserRatings d') = length (SparseIds ?U)"
    "length (DenseItemRatings d') = length (SparseIds ?I)"
    using inv by (simp_all add: d'_def ratings_inv_def)
  have "ratings_inv d0 (ys @ [(userId, itemId, rating)]) d'"
    unfolding ratings_inv_def using frame rowsU rowsI msU msI by blast
  with step show ?thesis by blast
qed

lemma ids_inv_cong:
  assumes "ids_inv ys d" "UserIdSet d' = UserIdSet d" "ItemIdSet d' = ItemIdSet d"
    "DenseUserIds d' = DenseUserIds d" "DenseItemIds d' = DenseItemIds d"
  shows "ids_inv ys d'"
  using assms by (simp add: ids_inv_def)

lemma ratings_inv_cong:
  assumes "ratings_inv d0 ys d" "Table d1 = Table d0" "GlobalMean d1 = GlobalMean d0"
    "DenseUserIds d1 = DenseUserIds d0" "DenseItemIds d1 = DenseItemIds d0"
    "UserIdSet d1 = UserIdSet d0" "ItemIdSet d1 = ItemIdSet d0"
  shows "ratings_inv d1 ys d"
  using assms by (simp add: ratings_inv_def)

lemma ratings_inv_frame:
  assumes "ratings_inv d0 ys d"
  shows "Table d = Table d0" "GlobalMean d = GlobalMean d0"
    "DenseUserIds d = DenseUserIds d0" "DenseItemIds d = DenseItemIds d0"
    "UserIdSet d = UserIdSet d0" "ItemIdSet d = ItemIdSet d0"
  using assms by (simp_all add: ratings_inv_def)

lemma ratings_inv_init:
  fixes d1 :: "'r DataSet"
  defines "d2 \<equiv> d1\<lparr>DenseUserRatings := NewDenseSparseMatrix (UserCount d1),
                    DenseItemRatings := NewDenseSparseMatrix (ItemCount d1)\<rparr>"
  shows "ratings_inv d2 [] d2"
  by (simp add: ratings_inv_def d2_def NewDenseSparseMatrix_def UserCount_def ItemCount_def
      SparseIdSet_Len_def user_rows_def item_rows_def ratings_mset_replicate)

lemma ids_inv_registered:
  assumes "ids_inv table d" and "(userId, itemId, rating) \<in> set table"
  shows "\<exists>du di. DenseIds (UserIdSet d) userId = Some du \<and> DenseIds (ItemIdSet d) itemId = Some di"
proof -
  from assms(2) obtain j where j: "j < length table" "table ! j = (userId, itemId, rating)"
    by (auto simp: in_set_conv_nth)
  with assms(1) show ?thesis
    unfolding ids_inv_def by (metis fst_conv snd_conv)
qed

lemma ratings_scan:
  fixes d2 :: "'r DataSet"
  assumes ids: "ids_inv table d2" and init: "ratings_inv d2 [] d2"
  shows "\<exists>d'. Table_ForEach NewDataSet_ratings table d2 = Inr d' \<and> ratings_inv d2 table d'"
proof -
  from ids have wfU: "wf_ids (UserIdSet d2)" and wfI: "wf_ids (ItemIdSet d2)"
    by (simp_all add: ids_inv_def)
  have "\<exists>d'. foldM_err (\<lambda>(userId, itemId, rating). NewDataSet_ratings userId itemId rating)
               table d2 = Inr d' \<and> ratings_inv d2 table d'"
  proof (rule foldM_err_invariant)
    show "ratings_inv d2 [] d2" by (rule init)
  next
    fix x :: "int \<times> int \<times> 'r" and ys and s :: "'r DataSet"
    assume mem: "x \<in> set table" and inv: "ratings_inv d2 ys s"
    obtain u i r where x: "x = (u, i, r)" by (cases x)
    from ids_inv_registered[OF ids mem[unfolded x]]
    obtain du di where reg: "DenseIds (UserIdSet d2) u = Some du"
      "DenseIds (ItemIdSet d2) i = Some di" by blast
    from ratings_inv_step[OF inv wfU wfI reg, of r]
    show "\<exists>s'. (case x of (userId, itemId, rating) \<Rightarrow> NewDataSet_ratings userId itemId rating) s
               = Inr s' \<and> ratings_inv d2 (ys @ [x]) s'"
      by (simp add: x)
  qed
  then show ?thesis by (simp add: Table_ForEach_def)
qed

lemma NewDataSet_built:
  fixes table :: "'r::field Table"
  shows "\<exists>dataSet. NewDataSet table = Inr dataSet \<and> Table dataSet = table \<and>
           GlobalMean dataSet = Table_Mean table \<and> ids_inv table dataSet \<and>
           ratings_inv dataSet table dataSet"
proof -
  define d0 :: "'r DataSet" where "d0 = \<lparr>Table = table, GlobalMean = Table_Mean table,
                      DenseUserIds = [], DenseItemIds = [],
                      DenseUserRatings = [], DenseItemRatings = [],
                      UserIdSet = NewSparseIdSet, ItemIdSet = NewSparseIdSet\<rparr>"
  have "ids_inv [] d0" by (simp add: ids_inv_def d0_def wf_ids_New)
  from ids_scan[OF this, of table]
  obtain d1 where d1: "Table_ForEach NewDataSet_ids table d0 = Inr d1" "ids_inv table d1"
    "Table d1 = table" "GlobalMean d1 = Table_Mean table"
    by (auto simp: d0_def)
  define d2 where "d2 = d1\<lparr>DenseUserRatings := NewDenseSparseMatrix (UserCount d1),
                    DenseItemRatings := NewDenseSparseMatrix (ItemCount d1)\<rparr>"
  have ids2: "ids_inv table d2"
    by (rule ids_inv_cong[OF d1(2)]) (simp_all add: d2_def)
  have init2: "ratings_inv d2 [] d2"
    unfolding d2_def by (rule ratings_inv_init)
  from ratings_scan[OF ids2 init2]
  obtain d3 where d3: "Table_ForEach NewDataSet_ratings table d2 = Inr d3"
    "ratings_inv d2 table d3" by blast
  note fr = ratings_inv_frame[OF d3(2)]
  have run: "NewDataSet table = Inr d3"
    using d1(1) d3(1)
    by (simp add: NewDataSet_def Let_def d0_def[symmetric] d2_def UserCount_def ItemCount_def)
  have "Table d3 = table" "GlobalMean d3 = Table_Mean table"
    using fr d1 by (simp_all add: d2_def)
  moreover have "ids_inv table d3"
    by (rule ids_inv_cong[OF ids2]) (simp_all add: fr)
  moreover have "ratings_inv d3 table d3"
    by (rule ratings_inv_cong[OF d3(2)]) (simp_all add: fr)
  ultimately show ?thesis using run by blast
qed

lemma ratings_sum_mset: "ratings_sum vecs = sum_mset (ratings_mset vecs)"
proof (induction vecs)
  case Nil
  show ?case by (simp add: ratings_sum_def ratings_mset_def)
next
  case (Cons vec vecs)
  have "(\<Sum>(ix, v)\<leftarrow>vec. v) = sum_mset (mset (map snd vec))"
    by (simp add: sum_mset_image_list case_prod_unfold)
  with Cons show ?case by (simp add: ratings_sum_def ratings_mset_def)
qed

lemma ids_inv_dense_ids:
  assumes "ids_inv table d" and "i < length table"
  shows "ToDenseId (UserIdSet d) (fst (table ! i)) = DenseUserIds d ! i"
    and "ToDenseId (ItemIdSet d) (fst (snd (table ! i))) = DenseItemIds d ! i"
    and "0 \<le> DenseUserIds d ! i" and "DenseUserIds d ! i < int (length (SparseIds (UserIdSet d)))"
    and "0 \<le> DenseItemIds d ! i" and "DenseItemIds d ! i < int (length (SparseIds (ItemIdSet d)))"
proof -
  from assms have u: "DenseIds (UserIdSet d) (fst (table ! i)) = Some (DenseUserIds d ! i)"
    and it: "DenseIds (ItemIdSet d) (fst (snd (table ! i))) = Some (DenseItemIds d ! i)"
    and wf: "wf_ids (UserIdSet d)" "wf_ids (ItemIdSet d)"
    by (simp_all add: ids_inv_def)
  show "ToDenseId (UserIdSet d) (fst (table ! i)) = DenseUserIds d ! i"
    "ToDenseId (ItemIdSet d) (fst (snd (table ! i))) = DenseItemIds d ! i"
    using u it by (simp_all add: ToDenseId_def)
  show "0 \<le> DenseUserIds d ! i" "DenseUserIds d ! i < int (length (SparseIds (UserIdSet d)))"
    using wf_ids_range[OF wf(1) u] by (simp_all add: SparseIdSet_Len_def)
  show "0 \<le> DenseItemIds d ! i" "DenseItemIds d ! i < int (length (SparseIds (ItemIdSet d)))"
    using wf_ids_range[OF wf(2) it] by (simp_all add: SparseIdSet_Len_def)
qed

lemma user_rows_member:
  assumes "i < length table" and "ToDenseId U (fst (table ! i)) = int d"
  shows "(ToDenseId I (fst (snd (table ! i))), snd (snd (table ! i))) \<in> set (user_rows U I table d)"
proof -
  obtain u it r where x: "table ! i = (u, it, r)" by (cases "table ! i")
  with assms(1) have "(u, it, r) \<in> set table" by (metis nth_mem)
  with assms(2) x show ?thesis
    by (force simp: user_rows_def)
qed

lemma item_rows_member:
  assumes "i < length table" and "ToDenseId I (fst (snd (table ! i))) = int d"
  shows "(ToDenseId U (fst (table ! i)), snd (snd (table ! i))) \<in> set (item_rows U I table d)"
proof -
  obtain u it r where x: "table ! i = (u, it, r)" by (cases "table ! i")
  with assms(1) have "(u, it, r) \<in> set table" by (metis nth_mem)
  with assms(2) x show ?thesis
    by (force simp: item_rows_def)
qed

section \<open>Queries and the loader\<close>

lemma NewDataSet_sample:
  "map_sum id (\<lambda>d. (Table d, DenseUserIds d, DenseItemIds d)) (NewDataSet sample_table) =
     Inr (sample_table, [0, 1, 0, 0], [0, 0, 1, 0])"
  by code_simp

lemma GetDense_valid:
  assumes "0 \<le> i" and "i < int (length (Table dataSet))"
    and "length (DenseUserIds dataSet) = length (Table dataSet)"
    and "length (DenseItemIds dataSet) = length (Table dataSet)"
  shows "GetDense dataSet i =
     Inr (DenseUserIds dataSet ! nat i, DenseItemIds dataSet ! nat i,
          snd (snd (Table dataSet ! nat i)))"
  using assms
  by (simp add: GetDense_def Table_Get_def index_def split: prod.splits)

lemma GetUserRatingsSet_fold:
  assumes vec: "index (DenseUserRatings dataSet) (ToDenseId (UserIdSet dataSet) userId) = Inr vec"
    and valid: "\<And>ix v. (ix, v) \<in> set vec \<Longrightarrow> 0 \<le> ix \<and> ix < SparseIdSet_Len (ItemIdSet dataSet)"
  shows "GetUserRatingsSet dataSet userId =
     Inr (map_of (rev (map (\<lambda>(ix, v). (SparseIds (ItemIdSet dataSet) ! nat ix, v)) vec)))"
proof -
  let ?I = "ItemIdSet dataSet"
  let ?f = "\<lambda>(ix, value) m. case ToSparseId ?I ix of Inl e \<Rightarrow> Inl e
                                 | Inr itemId \<Rightarrow> Inr (m(itemId \<mapsto> (value::'a)))"
  let ?g = "\<lambda>(ix, value) m. m(SparseIds ?I ! nat ix \<mapsto> (value::'a))"
  have "GetUserRatingsSet dataSet userId =
      foldM_err (\<lambda>(i, x). ?f x) (zip [0..<length vec] vec) Map.empty"
    using vec by (simp add: GetUserRatingsSet_def SparseVector_ForEach_def case_prod_unfold)
  also have "\<dots> = foldM_err ?f vec Map.empty"
    by (rule foldM_err_zip_ignore) simp
  also have "\<dots> = Inr (fold ?g vec Map.empty)"
  proof (rule foldM_err_total)
    fix x :: "int \<times> 'a" and s :: "int \<rightharpoonup> 'a"
    assume "x \<in> set vec"
    with valid[of "fst x" "snd x"] show "?f x s = Inr (?g x s)"
      by (simp add: case_prod_unfold ToSparseId_def index_def SparseIdSet_Len_def)
  qed
  also have "fold ?g vec Map.empty =
      fold (\<lambda>(k, v) m. m(k \<mapsto> v)) (map (\<lambda>(ix, v). (SparseIds ?I ! nat ix, v)) vec) Map.empty"
    by (simp add: fold_map comp_def case_prod_unfold)
  also have "\<dots> = map_of (rev (map (\<lambda>(ix, v). (SparseIds ?I ! nat ix, v)) vec))"
    by (simp add: fold_upd_map_of)
  finally show ?thesis .
qed

lemma unregistered_user_no_vectors:
  assumes "DenseIds (UserIdSet dataSet) userId = None" and "DenseUserRatings dataSet = []"
  shows "GetUserRatingsSet dataSet userId = Inl IndexOutOfRange"
  using assms by (simp add: ToDenseId_def GetUserRatingsSet_def index_def)

lemma NewDataSet_vectors_valid:
  fixes table :: "'r::field Table"
  shows "\<exists>dataSet. NewDataSet table = Inr dataSet \<and>
     (\<forall>(userId, itemId, rating) \<in> set table.
        \<exists>d vec. DenseIds (UserIdSet dataSet) userId = Some d \<and>
          index (DenseUserRatings dataSet) d = Inr vec \<and>
          (\<forall>(ix, v) \<in> set vec. 0 \<le> ix \<and> ix < SparseIdSet_Len (ItemIdSet dataSet)))"
proof -
  from NewDataSet_built[of table]
  obtain ds where run: "NewDataSet table = Inr ds" and ids: "ids_inv table ds"
    and rat: "ratings_inv ds table ds" by blast
  from ids have wfU: "wf_ids (UserIdSet ds)" and wfI: "wf_ids (ItemIdSet ds)"
    by (simp_all add: ids_inv_def)
  have "\<exists>d vec. DenseIds (UserIdSet ds) u = Some d \<and>
          index (DenseUserRatings ds) d = Inr vec \<and>
          (\<forall>(ix, v) \<in> set vec. 0 \<le> ix \<and> ix < SparseIdSet_Len (ItemIdSet ds))"
    if mem: "(u, i, r) \<in> set table" for u i r
  proof -
    from ids_inv_registered[OF ids mem] obtain d where d: "DenseIds (UserIdSet ds) u = Some d"
      by blast
    from wf_ids_range[OF wfU d] have rng: "0 \<le> d" "d < int (length (SparseIds (UserIdSet ds)))"
      by (simp_all add: SparseIdSet_Len_def)
    then have nd: "nat d < length (SparseIds (UserIdSet ds))" by linarith
    from rat have len: "length (DenseUserRatings ds) = length (SparseIds (UserIdSet ds))"
      and rows: "DenseUserRatings ds ! nat d = user_rows (UserIdSet ds) (ItemIdSet ds) table (nat d)"
      using nd by (simp_all add: ratings_inv_def)
    have idx: "index (DenseUserRatings ds) d =
        Inr (user_rows (UserIdSet ds) (ItemIdSet ds) table (nat d))"
      using rng len rows by (simp add: index_def)
    have "0 \<le> ix \<and> ix < SparseIdSet_Len (ItemIdSet ds)"
      if "(ix, v) \<in> set (user_rows (UserIdSet ds) (ItemIdSet ds) table (nat d))" for ix v
    proof -
      from that obtain u' i' where m': "(u', i', v) \<in> set table" and ix: "ix = ToDenseId (ItemIdSet ds) i'"
        by (auto simp: user_rows_def)
      from ids_inv_registered[OF ids m'] obtain di where di: "DenseIds (ItemIdSet ds) i' = Some di"
        by blast
      with wf_ids_range[OF wfI di] ix show ?thesis by (simp add: ToDenseId_def)
    qed
    with d idx show ?thesis by blast
  qed
  with run show ?thesis by blast
qed

lemma GetUserRatingsSet_of_NewDataSet:
  fixes table :: "'r::field Table"
  shows "\<exists>dataSet. NewDataSet table = Inr dataSet \<and>
     (\<forall>(userId, itemId, rating) \<in> set table.
        GetUserRatingsSet dataSet userId =
          Inr (map_of (rev (map (\<lambda>(u, i, r). (i, r)) (filter (\<lambda>(u, i, r). u = userId) table)))))"
proof -
  from NewDataSet_built[of table]
  obtain ds where run: "NewDataSet table = Inr ds" and ids: "ids_inv table ds"
    and rat: "ratings_inv ds table ds" by blast
  let ?U = "UserIdSet ds" and ?I = "ItemIdSet ds"
  from ids have wfU: "wf_ids ?U" and wfI: "wf_ids ?I"
    by (simp_all add: ids_inv_def)
  have "GetUserRatingsSet ds u =
          Inr (map_of (rev (map (\<lambda>(u, i, r). (i, r)) (filter (\<lambda>(u', i, r). u' = u) table))))"
    if mem: "(u, i0, r0) \<in> set table" for u i0 r0
  proof -
    from ids_inv_registered[OF ids mem] obtain d where d: "DenseIds ?U u = Some d"
      by blast
    from wf_ids_range[OF wfU d] have rng: "0 \<le> d" "d < int (length (SparseIds ?U))"
      and sp_d: "ToSparseId ?U d = Inr u"
      by (simp_all add: SparseIdSet_Len_def)
    then have nd: "nat d < length (SparseIds ?U)" by linarith
    from rat have len: "length (DenseUserRatings ds) = length (SparseIds ?U)"
      and rows: "DenseUserRatings ds ! nat d = user_rows ?U ?I table (nat d)"
      using nd by (simp_all add: ratings_inv_def)
    have td: "ToDenseId ?U u = d" using d by (simp add: ToDenseId_def)
    have idx: "index (DenseUserRatings ds) (ToDenseId ?U u) = Inr (user_rows ?U ?I table (nat d))"
      using rng len rows by (simp add: index_def td)
    have same_user: "(ToDenseId ?U u' = int (nat d)) = (u' = u)"
      if "(u', i', r') \<in> set table" for u' i' r'
    proof -
      from ids_inv_registered[OF ids that] obtain d' where d': "DenseIds ?U u' = Some d'"
        by blast
      from wf_ids_range[OF wfU d'] have "ToSparseId ?U d' = Inr u'" by simp
      with sp_d d d' rng show ?thesis by (auto simp: ToDenseId_def)
    qed
    have item_back: "SparseIds ?I ! nat (ToDenseId ?I i') = i'"
      and item_rng: "0 \<le> ToDenseId ?I i'" "ToDenseId ?I i' < SparseIdSet_Len ?I"
      if "(u', i', r') \<in> set table" for u' i' r'
    proof -
      from ids_inv_registered[OF ids that] obtain di where di: "DenseIds ?I i' = Some di"
        by blast
      from wf_ids_range[OF wfI di] di
      show "SparseIds ?I ! nat (ToDenseId ?I i') = i'" "0 \<le> ToDenseId ?I i'"
        "ToDenseId ?I i' < SparseIdSet_Len ?I"
        by (simp_all add: ToDenseId_def ToSparseId_def index_def split: if_splits)
    qed
    have filt: "filter (\<lambda>(u', i, r). ToDenseId ?U u' = int (nat d)) table =
        filter (\<lambda>(u', i, r). u' = u) table"
    proof (rule filter_cong[OF refl])
      fix x assume x: "x \<in> set table"
      obtain u' i' r' where eq: "x = (u', i', r')" by (cases x)
      from same_user[OF x[unfolded eq]]
      show "(case x of (u', i, r) \<Rightarrow> ToDenseId ?U u' = int (nat d)) =
            (case x of (u', i, r) \<Rightarrow> u' = u)"
        by (simp add: eq)
    qed
    have valid: "0 \<le> ix \<and> ix < SparseIdSet_Len ?I"
      if "(ix, v) \<in> set (user_rows ?U ?I table (nat d))" for ix v
      using that item_rng by (auto simp: user_rows_def)
    have conv: "map (\<lambda>(ix, v). (SparseIds ?I ! nat ix, v)) (user_rows ?U ?I table (nat d)) =
        map (\<lambda>(u, i, r). (i, r)) (filter (\<lambda>(u', i, r). u' = u) table)"
      unfolding user_rows_def filt
      by (simp add: case_prod_unfold) (use item_back in auto)
    from GetUserRatingsSet_fold[OF idx valid] conv show ?thesis by simp
  qed
  with run show ?thesis by blast
qed

lemma Atoi_syntax_zero: "snd (Atoi s) = Some ErrSyntax \<Longrightarrow> fst (Atoi s) = 0"
  by (auto simp: Atoi_def Let_def split: prod.splits if_splits)

lemma Atoi_range_bound:
  "snd (Atoi s) = Some ErrRange \<Longrightarrow> fst (Atoi s) = 2 ^ 63 - 1 \<or> fst (Atoi s) = - (2 ^ 63)"
  by (auto simp: Atoi_def Let_def split: prod.splits if_splits)

lemma two_fields_panic:
  assumes "length (Split line sep) = 2"
  shows "LoadDataFromCSV_line pf sep line (False, users, items, ratings) = Inl IndexOutOfRange"
  using assms
  by (simp add: LoadDataFromCSV_line_def Let_def index_def split: prod.splits)


lemma ParseFloat_reject_conv: "ParseFloat_reject s = ParseFloat (\<lambda>s. None) s"
  by (simp add: ParseFloat_reject_def ParseFloat_def)









section \<open>The claims\<close>

text \<open>
  C1. After \<open>NewDataSet\<close> has built a DataSet from a raw table, which it does for every
  table, for every record position \<open>i\<close> the dense ids recorded at \<open>i\<close> are in range of
  the two arrays, the vector \<open>DenseUserRatings[DenseUserIds[i]]\<close> contains the pair
  \<open>(DenseItemIds[i], rating i)\<close>, and the vector \<open>DenseItemRatings[DenseItemIds[i]]\<close>
  contains the pair \<open>(DenseUserIds[i], rating i)\<close>.
\<close>

theorem NewDataSet_records_in_both_indices:
  fixes table :: "'r::field Table"
  shows "\<exists>dataSet. NewDataSet table = Inr dataSet \<and>
     (\<forall>i<length table.
        0 \<le> DenseUserIds dataSet ! i \<and>
        DenseUserIds dataSet ! i < int (length (DenseUserRatings dataSet)) \<and>
        0 \<le> DenseItemIds dataSet ! i \<and>
        DenseItemIds dataSet ! i < int (length (DenseItemRatings dataSet)) \<and>
        (DenseItemIds dataSet ! i, snd (snd (table ! i)))
           \<in> set (DenseUserRatings dataSet ! nat (DenseUserIds dataSet ! i)) \<and>
        (DenseUserIds dataSet ! i, snd (snd (table ! i)))
           \<in> set (DenseItemRatings dataSet ! nat (DenseItemIds dataSet ! i)))"
proof -
  from NewDataSet_built[of table]
  obtain d where run: "NewDataSet table = Inr d" and ids: "ids_inv table d"
    and rat: "ratings_inv d table d" by blast
  have lens: "length (DenseUserRatings d) = length (SparseIds (UserIdSet d))"
    "length (DenseItemRatings d) = length (SparseIds (ItemIdSet d))"
    using rat by (simp_all add: ratings_inv_def)
  have "0 \<le> DenseUserIds d ! i \<and>
        DenseUserIds d ! i < int (length (DenseUserRatings d)) \<and>
        0 \<le> DenseItemIds d ! i \<and>
        DenseItemIds d ! i < int (length (DenseItemRatings d)) \<and>
        (DenseItemIds d ! i, snd (snd (table ! i)))
           \<in> set (DenseUserRatings d ! nat (DenseUserIds d ! i)) \<and>
        (DenseUserIds d ! i, snd (snd (table ! i)))
           \<in> set (DenseItemRatings d ! nat (DenseItemIds d ! i))" if i: "i < length table" for i
  proof -
    note di = ids_inv_dense_ids[OF ids i]
    have nu: "nat (DenseUserIds d ! i) < length (SparseIds (UserIdSet d))"
      using di(3,4) by linarith
    have ni: "nat (DenseItemIds d ! i) < length (SparseIds (ItemIdSet d))"
      using di(5,6) by linarith
    have ru: "DenseUserRatings d ! nat (DenseUserIds d ! i) =
        user_rows (UserIdSet d) (ItemIdSet d) table (nat (DenseUserIds d ! i))"
      using rat nu by (simp add: ratings_inv_def)
    have ri: "DenseItemRatings d ! nat (DenseItemIds d ! i) =
        item_rows (UserIdSet d) (ItemIdSet d) table (nat (DenseItemIds d ! i))"
      using rat ni by (simp add: ratings_inv_def)
    have mu: "(DenseItemIds d ! i, snd (snd (table ! i)))
           \<in> set (DenseUserRatings d ! nat (DenseUserIds d ! i))"
      using user_rows_member[OF i, of "UserIdSet d" "nat (DenseUserIds d ! i)" "ItemIdSet d"]
        di(1,2,3) by (simp add: ru)
    have mi: "(DenseUserIds d ! i, snd (snd (table ! i)))
           \<in> set (DenseItemRatings d ! nat (DenseItemIds d ! i))"
      using item_rows_member[OF i, of "ItemIdSet d" "nat (DenseItemIds d ! i)" "UserIdSet d"]
        di(1,2,5) by (simp add: ri)
    from di(3,4,5,6) lens mu mi show ?thesis by simp
  qed
  with run show ?thesis by blast
qed

text \<open>At position 3 of the sample table, the second observation of user 5 and item 7.\<close>

theorem NewDataSet_records_in_both_indices_witness:
  "3 < length sample_table \<and>
   (\<exists>dataSet. NewDataSet sample_table = Inr dataSet \<and>
      DenseUserIds dataSet ! 3 = 0 \<and> DenseItemIds dataSet ! 3 = 0 \<and>
      (0, 2) \<in> set (DenseUserRatings dataSet ! 0) \<and>
      (0, 2) \<in> set (DenseItemRatings dataSet ! 0))"
proof -
  have len: "3 < length sample_table" by (simp add: sample_table_def)
  from NewDataSet_records_in_both_indices[of sample_table]
  obtain d where run: "NewDataSet sample_table = Inr d"
    and rec: "\<forall>i<length sample_table.
        0 \<le> DenseUserIds d ! i \<and>
        DenseUserIds d ! i < int (length (DenseUserRatings d)) \<and>
        0 \<le> DenseItemIds d ! i \<and>
        DenseItemIds d ! i < int (length (DenseItemRatings d)) \<and>
        (DenseItemIds d ! i, snd (snd (sample_table ! i)))
           \<in> set (DenseUserRatings d ! nat (DenseUserIds d ! i)) \<and>
        (DenseUserIds d ! i, snd (snd (sample_table ! i)))
           \<in> set (DenseItemRatings d ! nat (DenseItemIds d ! i))"
    by blast
  from run NewDataSet_sample have ids: "DenseUserIds d = [0, 1, 0, 0]" "DenseItemIds d = [0, 0, 1, 0]"
    by auto
  from rec len have
    "(DenseItemIds d ! 3, snd (snd (sample_table ! 3)))
           \<in> set (DenseUserRatings d ! nat (DenseUserIds d ! 3))"
    "(DenseUserIds d ! 3, snd (snd (sample_table ! 3)))
           \<in> set (DenseItemRatings d ! nat (DenseItemIds d ! 3))"
    by blast+
  then have "(0, 2) \<in> set (DenseUserRatings d ! 0)" "(0, 2) \<in> set (DenseItemRatings d ! 0)"
    by (simp_all add: ids sample_table_def)
  with len run ids show ?thesis by simp
qed

text \<open>
  C2. For every raw table, the empty one included, the rating values across all vectors
  of \<open>DenseUserRatings\<close> are, as a multiset, the ratings of the raw table, and so are
  those across \<open>DenseItemRatings\<close>: every observation occurs exactly once in each of
  the two indices. Hence the three sums are equal (0 for the empty table). The sums are
  those of exact arithmetic.
\<close>

theorem NewDataSet_conservation:
  fixes table :: "'r::field Table"
  shows "\<exists>dataSet. NewDataSet table = Inr dataSet \<and>
     ratings_mset (DenseUserRatings dataSet) = mset (map (\<lambda>(userId, itemId, rating). rating) table) \<and>
     ratings_mset (DenseItemRatings dataSet) = mset (map (\<lambda>(userId, itemId, rating). rating) table) \<and>
     ratings_sum (DenseUserRatings dataSet) = (\<Sum>(userId, itemId, rating)\<leftarrow>table. rating) \<and>
     ratings_sum (DenseItemRatings dataSet) = (\<Sum>(userId, itemId, rating)\<leftarrow>table. rating)"
proof -
  from NewDataSet_built[of table]
  obtain d where run: "NewDataSet table = Inr d" and rat: "ratings_inv d table d" by blast
  from rat have ms:
    "ratings_mset (DenseUserRatings d) = mset (map (\<lambda>(userId, itemId, rating). rating) table)"
    "ratings_mset (DenseItemRatings d) = mset (map (\<lambda>(userId, itemId, rating). rating) table)"
    by (simp_all add: ratings_inv_def)
  have "ratings_sum (DenseUserRatings d) = (\<Sum>(userId, itemId, rating)\<leftarrow>table. rating)"
    "ratings_sum (DenseItemRatings d) = (\<Sum>(userId, itemId, rating)\<leftarrow>table. rating)"
    by (simp_all add: ratings_sum_mset ms sum_mset_image_list)
  with run ms show ?thesis by blast
qed

text \<open>
  C3. For a registered sparse user id, \<open>GetUserRatingsSet\<close> converts it to the dense id,
  goes through that user's vector in order, converts each dense item index back to the
  sparse item id, and returns the map from sparse item id to rating: the map of the
  converted pairs in which a later pair overrides an earlier one. Its keys are the
  converted indices of the vector, and the value under a key is the one of the last
  pair of the vector with that key. The indices of the vector are assumed to be dense
  item ids of the item set.
\<close>

theorem GetUserRatingsSet_later_value_wins:
  assumes reg: "DenseIds (UserIdSet dataSet) userId = Some d"
    and vec: "index (DenseUserRatings dataSet) d = Inr vec"
    and valid: "\<forall>(ix, v) \<in> set vec. 0 \<le> ix \<and> ix < SparseIdSet_Len (ItemIdSet dataSet)"
  shows "\<exists>m. GetUserRatingsSet dataSet userId = Inr m \<and>
     m = map_of (rev (map (\<lambda>(ix, v). (SparseIds (ItemIdSet dataSet) ! nat ix, v)) vec)) \<and>
     dom m = (\<lambda>(ix, v). SparseIds (ItemIdSet dataSet) ! nat ix) ` set vec \<and>
     (\<forall>q<length vec.
        (\<forall>q'. q < q' \<and> q' < length vec \<longrightarrow>
           SparseIds (ItemIdSet dataSet) ! nat (fst (vec ! q')) \<noteq>
           SparseIds (ItemIdSet dataSet) ! nat (fst (vec ! q))) \<longrightarrow>
        m (SparseIds (ItemIdSet dataSet) ! nat (fst (vec ! q))) = Some (snd (vec ! q)))"
proof -
  let ?kvs = "map (\<lambda>(ix, v). (SparseIds (ItemIdSet dataSet) ! nat ix, v)) vec"
  from reg have td: "ToDenseId (UserIdSet dataSet) userId = d" by (simp add: ToDenseId_def)
  have run: "GetUserRatingsSet dataSet userId = Inr (map_of (rev ?kvs))"
    by (rule GetUserRatingsSet_fold) (use vec valid td in auto)
  have dom: "dom (map_of (rev ?kvs)) =
      (\<lambda>(ix, v). SparseIds (ItemIdSet dataSet) ! nat ix) ` set vec"
    by (force simp: dom_map_of_conv_image_fst)
  have last: "map_of (rev ?kvs) (SparseIds (ItemIdSet dataSet) ! nat (fst (vec ! q))) =
      Some (snd (vec ! q))"
    if q: "q < length vec"
      and later: "\<forall>q'. q < q' \<and> q' < length vec \<longrightarrow>
           SparseIds (ItemIdSet dataSet) ! nat (fst (vec ! q')) \<noteq>
           SparseIds (ItemIdSet dataSet) ! nat (fst (vec ! q))" for q
  proof -
    have "map_of (rev ?kvs) (fst (?kvs ! q)) = Some (snd (?kvs ! q))"
    proof (rule map_of_rev_last)
      show "q < length ?kvs" using q by simp
    next
      fix q' assume "q < q'" "q' < length ?kvs"
      with later q show "fst (?kvs ! q') \<noteq> fst (?kvs ! q)"
        by (simp add: case_prod_unfold)
    qed
    with q show ?thesis by (simp add: case_prod_unfold)
  qed
  from run dom last show ?thesis by blast
qed

text \<open>The user of the test with a duplicate: dense item 1 is rated 10 and later 30.\<close>

theorem GetUserRatingsSet_later_value_wins_witness:
  "DenseIds (UserIdSet dup_data) 2 = Some 0 \<and>
   index (DenseUserRatings dup_data) 0 = Inr [(1, 10), (2, 20), (1, 30)] \<and>
   (\<exists>m. GetUserRatingsSet dup_data 2 = Inr m \<and> m 2 = Some 30 \<and> m 4 = Some 20 \<and> dom m = {2, 4})"
proof -
  let ?vec = "[(1, 10), (2, 20), (1, 30)] :: rat SparseVector"
  let ?sp = "\<lambda>ix. SparseIds (ItemIdSet dup_data) ! nat ix"
  have reg: "DenseIds (UserIdSet dup_data) 2 = Some 0"
    by (simp add: dup_data_def test_data_def)
  have vec: "index (DenseUserRatings dup_data) 0 = Inr ?vec"
    by (simp add: dup_data_def test_data_def index_def)
  have valid: "\<forall>(ix, v) \<in> set ?vec. 0 \<le> ix \<and> ix < SparseIdSet_Len (ItemIdSet dup_data)"
    by (simp add: dup_data_def test_data_def SparseIdSet_Len_def)
  have sp: "SparseIds (ItemIdSet dup_data) = [0, 2, 4, 6]"
    by (simp add: dup_data_def test_data_def)
  from GetUserRatingsSet_later_value_wins[OF reg vec valid]
  obtain m where run: "GetUserRatingsSet dup_data 2 = Inr m"
    and dom: "dom m = (\<lambda>(ix, v). ?sp ix) ` set ?vec"
    and last: "\<And>q. q < length ?vec \<Longrightarrow>
        (\<forall>q'. q < q' \<and> q' < length ?vec \<longrightarrow> ?sp (fst (?vec ! q')) \<noteq> ?sp (fst (?vec ! q))) \<Longrightarrow>
        m (?sp (fst (?vec ! q))) = Some (snd (?vec ! q))"
    by blast
  have later1: "\<forall>q'. 1 < q' \<and> q' < length ?vec \<longrightarrow> ?sp (fst (?vec ! q')) \<noteq> ?sp (fst (?vec ! 1))"
  proof (intro allI impI)
    fix q' :: nat assume "1 < q' \<and> q' < length ?vec"
    then have "q' = 2" by simp
    then show "?sp (fst (?vec ! q')) \<noteq> ?sp (fst (?vec ! 1))" by (simp add: sp)
  qed
  have later2: "\<forall>q'. 2 < q' \<and> q' < length ?vec \<longrightarrow> ?sp (fst (?vec ! q')) \<noteq> ?sp (fst (?vec ! 2))"
    by simp
  from last[of 1, OF _ later1] have m4: "m 4 = Some 20" by (simp add: sp)
  from last[of 2, OF _ later2] have m2: "m 2 = Some 30" by (simp add: sp)
  from dom have "dom m = {2, 4}" by (auto simp: sp)
  with reg vec run m2 m4 show ?thesis by blast
qed

text \<open>
  C4. The claim: a lookup with an id that was never registered gives an explicit failure
  signal rather than a silent zero or default value. It fails: in the data set of the
  test, user id 7 is not registered, yet \<open>ToDenseId\<close> answers 0 and
  \<open>GetUserRatingsSet\<close> answers with the ratings of the registered user 2.
\<close>

theorem unregistered_user_silent_counterexample:
  "DenseIds (UserIdSet test_data) 7 = None \<and>
   ToDenseId (UserIdSet test_data) 7 = 0 \<and>
   GetUserRatingsSet test_data 7 = Inr [2 \<mapsto> 10, 4 \<mapsto> 20]"
  by (simp add: model_defs test_data_def upt_rec)

text \<open>
  C4, as amended. For an id that is not registered in the user identifier set,
  \<open>ToDenseId\<close> returns 0 with no failure signal, and \<open>GetUserRatingsSet\<close> answers as it
  does for the registered user whose dense id is 0.
\<close>

theorem unregistered_user_reads_dense_zero:
  assumes "DenseIds (UserIdSet dataSet) userId = None"
    and "DenseIds (UserIdSet dataSet) first = Some 0"
  shows "ToDenseId (UserIdSet dataSet) userId = 0 \<and>
         GetUserRatingsSet dataSet userId = GetUserRatingsSet dataSet first"
  using assms by (simp add: ToDenseId_def GetUserRatingsSet_def)

theorem unregistered_user_reads_dense_zero_witness:
  "DenseIds (UserIdSet test_data) 7 = None \<and> DenseIds (UserIdSet test_data) 2 = Some 0 \<and>
   ToDenseId (UserIdSet test_data) 7 = 0 \<and>
   GetUserRatingsSet test_data 7 = GetUserRatingsSet test_data 2"
proof -
  have unreg: "DenseIds (UserIdSet test_data) 7 = None"
    and reg: "DenseIds (UserIdSet test_data) 2 = Some 0"
    by (simp_all add: test_data_def)
  from unregistered_user_reads_dense_zero[OF unreg reg] reg unreg show ?thesis by blast
qed

text \<open>
  C5. After construction, \<open>DenseUserIds\<close> and \<open>DenseItemIds\<close> are as long as the raw
  table, \<open>DenseUserRatings\<close> has \<open>UserCount()\<close> entries and \<open>DenseItemRatings\<close> has
  \<open>ItemCount()\<close> entries, the sizes at which the two arrays were allocated.
\<close>

theorem NewDataSet_lengths:
  fixes table :: "'r::field Table"
  shows "\<exists>dataSet. NewDataSet table = Inr dataSet \<and>
     Table_Len (Table dataSet) = Table_Len table \<and>
     int (length (DenseUserIds dataSet)) = Table_Len table \<and>
     int (length (DenseItemIds dataSet)) = Table_Len table \<and>
     int (length (DenseUserRatings dataSet)) = UserCount dataSet \<and>
     int (length (DenseItemRatings dataSet)) = ItemCount dataSet \<and>
     length (NewDenseSparseMatrix (UserCount dataSet) :: 'r SparseVector list)
       = length (DenseUserRatings dataSet) \<and>
     length (NewDenseSparseMatrix (ItemCount dataSet) :: 'r SparseVector list)
       = length (DenseItemRatings dataSet)"
proof -
  from NewDataSet_built[of table]
  obtain d where run: "NewDataSet table = Inr d" and tab: "Table d = table"
    and ids: "ids_inv table d" and rat: "ratings_inv d table d" by blast
  from ids have "length (DenseUserIds d) = length table" "length (DenseItemIds d) = length table"
    by (simp_all add: ids_inv_def)
  moreover from rat have "length (DenseUserRatings d) = length (SparseIds (UserIdSet d))"
    "length (DenseItemRatings d) = length (SparseIds (ItemIdSet d))"
    by (simp_all add: ratings_inv_def)
  ultimately show ?thesis
    using run tab
    by (simp add: Table_Len_def UserCount_def ItemCount_def SparseIdSet_Len_def
        NewDenseSparseMatrix_def)
qed

text \<open>
  C6. For every valid position \<open>i\<close> of a constructed data set, \<open>GetDense(i)\<close> returns
  \<open>(DenseUserIds[i], DenseItemIds[i], rating i)\<close>, where \<open>rating i\<close> is the rating of the
  raw record that \<open>Get(i)\<close> returns.
\<close>

theorem GetDense_returns_dense_triple:
  fixes table :: "'r::field Table"
  shows "\<exists>dataSet. NewDataSet table = Inr dataSet \<and>
     (\<forall>i. 0 \<le> i \<and> i < Table_Len (Table dataSet) \<longrightarrow>
        (\<exists>userId itemId rating.
           Table_Get (Table dataSet) i = Inr (userId, itemId, rating) \<and>
           GetDense dataSet i =
             Inr (DenseUserIds dataSet ! nat i, DenseItemIds dataSet ! nat i, rating)))"
proof -
  from NewDataSet_built[of table]
  obtain d where run: "NewDataSet table = Inr d" and tab: "Table d = table"
    and ids: "ids_inv table d" by blast
  from ids tab have lens: "length (DenseUserIds d) = length (Table d)"
    "length (DenseItemIds d) = length (Table d)"
    by (simp_all add: ids_inv_def)
  have "\<exists>userId itemId rating.
           Table_Get (Table d) i = Inr (userId, itemId, rating) \<and>
           GetDense d i = Inr (DenseUserIds d ! nat i, DenseItemIds d ! nat i, rating)"
    if "0 \<le> i" "i < Table_Len (Table d)" for i
  proof -
    from that have i: "i < int (length (Table d))" by (simp add: Table_Len_def)
    obtain u it r where x: "Table d ! nat i = (u, it, r)" by (cases "Table d ! nat i")
    from that(1) i have "Table_Get (Table d) i = Inr (u, it, r)"
      by (simp add: Table_Get_def index_def x)
    moreover from GetDense_valid[OF that(1) i lens]
    have "GetDense d i = Inr (DenseUserIds d ! nat i, DenseItemIds d ! nat i, r)"
      by (simp add: x)
    ultimately show ?thesis by blast
  qed
  with run show ?thesis by blast
qed

theorem GetDense_returns_dense_triple_witness:
  "\<exists>dataSet. NewDataSet sample_table = Inr dataSet \<and>
     0 \<le> (2::int) \<and> 2 < Table_Len (Table dataSet) \<and>
     Table_Get (Table dataSet) 2 = Inr (5, 8, 1) \<and> GetDense dataSet 2 = Inr (0, 1, 1)"
proof -
  from GetDense_returns_dense_triple[of sample_table]
  obtain d where run: "NewDataSet sample_table = Inr d"
    and get: "\<forall>i. 0 \<le> i \<and> i < Table_Len (Table d) \<longrightarrow>
        (\<exists>userId itemId rating.
           Table_Get (Table d) i = Inr (userId, itemId, rating) \<and>
           GetDense d i = Inr (DenseUserIds d ! nat i, DenseItemIds d ! nat i, rating))"
    by blast
  from run NewDataSet_sample have d: "Table d = sample_table"
    "DenseUserIds d = [0, 1, 0, 0]" "DenseItemIds d = [0, 0, 1, 0]"
    by auto
  have valid: "0 \<le> (2::int) \<and> 2 < Table_Len (Table d)"
    by (simp add: d Table_Len_def sample_table_def)
  with get obtain u it r where r: "Table_Get (Table d) 2 = Inr (u, it, r)"
    "GetDense d 2 = Inr (DenseUserIds d ! nat 2, DenseItemIds d ! nat 2, r)"
    by blast
  from r(1) have "(u, it, r) = (5, 8, 1)"
    by (simp add: d Table_Get_def index_def sample_table_def)
  with r run valid show ?thesis
    by (simp add: d)
qed

text \<open>
  C7. The claim: for an empty raw table the stored \<open>GlobalMean\<close> is an explicitly defined
  result rather than a division-by-zero artifact such as NaN. It fails: \<open>NewDataSet\<close>
  stores what \<open>Mean\<close> returns, which is NaN for the empty table.
\<close>

theorem GlobalMean_empty_table_counterexample:
  "map_sum id GlobalMean (NewDataSet ([] :: rat Table)) = Inr NaN"
  by (simp add: model_defs)

text \<open>
  C7, as amended. \<open>GlobalMean\<close> is the value of \<open>Table.Mean()\<close>, stored once at
  construction and not guarded: the arithmetic average of all rating values for a
  table with records, and NaN for the empty table.
\<close>

theorem GlobalMean_is_Table_Mean:
  fixes table :: "'r::field Table"
  shows "\<exists>dataSet. NewDataSet table = Inr dataSet \<and>
     GlobalMean dataSet = Table_Mean table \<and>
     GlobalMean dataSet =
       (if table = [] then NaN
        else Num ((\<Sum>(userId, itemId, rating)\<leftarrow>table. rating) / of_nat (length table)))"
  using NewDataSet_built[of table] by (auto simp: Table_Mean_def)

text \<open>
  C8. In the data set of the test (item set with sparse ids 0, 2, 4, 6 at the dense ids
  0, 1, 2, 3; the user with sparse id 2 and dense id 0 holding the pairs (1, 10.0) and
  (2, 20.0)), \<open>GetUserRatingsSet\<close> for that user returns exactly the map
  \<open>{2: 10.0, 4: 20.0}\<close>.
\<close>

theorem TestDataSet_GetUserRatingsSet:
  "GetUserRatingsSet test_data 2 = Inr [2 \<mapsto> 10, 4 \<mapsto> 20]"
  by (simp add: model_defs test_data_def upt_rec)




text \<open>
  C10. The claim: on every line that is not skipped, \<open>fields[0]\<close>, \<open>fields[1]\<close> and
  \<open>fields[2]\<close> are in bounds. The code skips a line of fewer than two fields only, and
  on the line \<open>1,2\<close>, of two fields, reading \<open>fields[2]\<close> is out of range.
\<close>

theorem LoadDataFromCSV_two_fields_panics:
  "LoadDataFromCSV pf (Some [''1,2'']) '','' False = Inl IndexOutOfRange"
  by (simp add: csv_defs)

end
